theory Spec2Isabelle
  imports Complex_Main
begin

section \<open>The ABRSQOL quality-of-life inversion\<close>

text \<open>
  A shallow embedding of \<^verbatim>\<open>invert_quality_of_life\<close>
  (\<^verbatim>\<open>src/ABRSQOL/invert_quality_of_life.py\<close>).

  Numbers: the float64 entries of the numpy arrays are read as real numbers, so every
  statement below is one of exact arithmetic. \<^verbatim>\<open>x ** y\<close> with a float
  exponent is \<open>x powr y\<close> and \<^verbatim>\<open>x ** -1\<close> is \<open>x powi (- 1)\<close>;
  both agree with numpy where the base is positive. numpy answers a division by zero
  with inf or nan and a warning, never with an exception; HOL answers it with 0. The
  two disagree there, so the theorems that depend on the values of the arrays assume
  data for which no divisor is zero and no base of a power is negative.

  Arrays: a two-dimensional array is its shape and its entries by index. A Jx1 array
  broadcast against a JxTheta array is read at column 0, a one-dimensional array of
  length Theta (a row \<^verbatim>\<open>X[0]\<close>, a column sum) is read at the column index.
\<close>

subsection \<open>Data\<close>

record ndarray =
  shape0 :: nat
  shape1 :: nat
  item :: "nat \<Rightarrow> nat \<Rightarrow> real"

text \<open>
  The six arrays extracted from the data frame (lines 80-86), under the names the
  source rebinds to them, and the keyword parameters. \<open>P_t\<close>, \<open>p_H\<close> and
  \<open>p_n\<close> are selected by one label each and have shape Jx1; only their column 0
  is read.
\<close>

record args =
  L_b :: ndarray
  L :: ndarray
  w :: ndarray
  P_t :: ndarray
  p_H :: ndarray
  p_n :: ndarray
  alpha :: real
  beta :: real
  gamma :: real
  xi :: real
  conv :: real
  tolerance :: real
  maxiter :: int

text \<open>
  The exceptions the function can raise: the two \<^verbatim>\<open>ValueError\<close>s of the
  dimension checks (with the lengths they report), the \<^verbatim>\<open>IndexError\<close> of
  reading row 0 of an array without rows or column 0 of an array without columns, and
  the \<^verbatim>\<open>ZeroDivisionError\<close> of the Python scalar division \<^verbatim>\<open>1 / gamma\<close>.
\<close>

datatype error =
  ValueError string "nat list"
  | IndexError
  | ZeroDivisionError

text \<open>The variables of the loop (lines 130-135).\<close>

record state =
  A_hat :: "nat \<Rightarrow> nat \<Rightarrow> real"
  A :: "nat \<Rightarrow> nat \<Rightarrow> real"
  O_vector_total :: "real list"
  O_total :: real
  count :: int

subsection \<open>Array operations\<close>

text \<open>\<^verbatim>\<open>X.sum(axis=0)\<close> of an array with \<open>n\<close> rows, at column \<open>t\<close>.\<close>

definition sum_axis0 :: "nat \<Rightarrow> (nat \<Rightarrow> nat \<Rightarrow> real) \<Rightarrow> nat \<Rightarrow> real" where
  "sum_axis0 n X t = (\<Sum>i\<leftarrow>[0..<n]. X i t)"

text \<open>\<^verbatim>\<open>X.sum()\<close> of an array with \<open>n\<close> rows and \<open>k\<close> columns.\<close>

definition sum_all :: "nat \<Rightarrow> nat \<Rightarrow> (nat \<Rightarrow> nat \<Rightarrow> real) \<Rightarrow> real" where
  "sum_all n k X = (\<Sum>i\<leftarrow>[0..<n]. \<Sum>t\<leftarrow>[0..<k]. X i t)"

subsection \<open>Dimension checks (lines 89-104)\<close>

definition row_counts :: "args \<Rightarrow> nat list" where
  "row_counts inp =
     [shape0 (L_b inp), shape0 (L inp), shape0 (w inp),
      shape0 (P_t inp), shape0 (p_H inp), shape0 (p_n inp)]"

definition column_counts :: "args \<Rightarrow> nat list" where
  "column_counts inp = [shape1 (L_b inp), shape1 (L inp), shape1 (w inp)]"

definition J :: "args \<Rightarrow> nat" where
  "J inp = shape0 (L_b inp)"

definition Theta :: "args \<Rightarrow> nat" where
  "Theta inp = shape1 (L_b inp)"

subsection \<open>Preprocessing (lines 109-126)\<close>

definition L_bar :: "args \<Rightarrow> nat \<Rightarrow> real" where
  "L_bar inp t = sum_axis0 (J inp) (item (L inp)) t"

definition L_b_adjust :: "args \<Rightarrow> nat \<Rightarrow> real" where
  "L_b_adjust inp t = L_bar inp t / sum_axis0 (J inp) (item (L_b inp)) t"

text \<open>The array the source rebinds \<open>L_b\<close> to on line 112.\<close>

definition L_b_rescaled :: "args \<Rightarrow> nat \<Rightarrow> nat \<Rightarrow> real" where
  "L_b_rescaled inp i t = item (L_b inp) i t * L_b_adjust inp t"

definition L_hat :: "args \<Rightarrow> nat \<Rightarrow> nat \<Rightarrow> real" where
  "L_hat inp i t = item (L inp) i t / item (L inp) 0 t"

definition w_hat :: "args \<Rightarrow> nat \<Rightarrow> nat \<Rightarrow> real" where
  "w_hat inp i t = item (w inp) i t / item (w inp) 0 t"

definition P_t_hat :: "args \<Rightarrow> nat \<Rightarrow> nat \<Rightarrow> real" where
  "P_t_hat inp i k = item (P_t inp) i k / item (P_t inp) 0 k"

definition p_H_hat :: "args \<Rightarrow> nat \<Rightarrow> nat \<Rightarrow> real" where
  "p_H_hat inp i k = item (p_H inp) i k / item (p_H inp) 0 k"

definition p_n_hat :: "args \<Rightarrow> nat \<Rightarrow> nat \<Rightarrow> real" where
  "p_n_hat inp i k = item (p_n inp) i k / item (p_n inp) 0 k"

definition P_hat :: "args \<Rightarrow> nat \<Rightarrow> nat \<Rightarrow> real" where
  "P_hat inp i k =
     (P_t_hat inp i k powr (alpha inp * beta inp))
     * (p_n_hat inp i k powr (alpha inp * (1 - beta inp)))
     * (p_H_hat inp i k powr (1 - alpha inp))"

definition P :: "args \<Rightarrow> nat \<Rightarrow> nat \<Rightarrow> real" where
  "P inp i k =
     (item (P_t inp) i k powr (alpha inp * beta inp))
     * (item (p_n inp) i k powr (alpha inp * (1 - beta inp)))
     * (item (p_H inp) i k powr (1 - alpha inp))"

subsection \<open>One pass of the loop (lines 142-165)\<close>

definition nom :: "args \<Rightarrow> state \<Rightarrow> nat \<Rightarrow> nat \<Rightarrow> real" where
  "nom inp st i t = (A st i t * item (w inp) i t / P inp i 0) powr gamma inp"

definition Psi_b :: "args \<Rightarrow> state \<Rightarrow> nat \<Rightarrow> nat \<Rightarrow> real" where
  "Psi_b inp st i t =
     ((exp (xi inp) - 1) * nom inp st i t / sum_axis0 (J inp) (nom inp st) t + 1) powi (- 1)"

definition mathcal_L :: "args \<Rightarrow> state \<Rightarrow> nat \<Rightarrow> nat \<Rightarrow> real" where
  "mathcal_L inp st i t =
     sum_axis0 (J inp) (\<lambda>j s. L_b_rescaled inp j s * Psi_b inp st j s) t
     + L_b_rescaled inp i t * Psi_b inp st i t * (exp (xi inp) - 1)"

definition mathcal_L_hat :: "args \<Rightarrow> state \<Rightarrow> nat \<Rightarrow> nat \<Rightarrow> real" where
  "mathcal_L_hat inp st i t = mathcal_L inp st i t / mathcal_L inp st 0 t"

definition A_hat_up :: "args \<Rightarrow> state \<Rightarrow> nat \<Rightarrow> nat \<Rightarrow> real" where
  "A_hat_up inp st i t =
     P_hat inp i 0 * (1 / w_hat inp i t)
     * (L_hat inp i t / mathcal_L_hat inp st i t) powr (1 / gamma inp)"

text \<open>
  The body of the \<^verbatim>\<open>while\<close>. \<^verbatim>\<open>1 / gamma\<close> divides two Python
  scalars and raises when \<open>gamma\<close> is zero; nothing has been assigned to the loop
  variables by then.
\<close>

definition pass :: "args \<Rightarrow> state \<Rightarrow> error + state" where
  "pass inp st =
     (if gamma inp = 0 then Inl ZeroDivisionError
      else
        let O_new = sum_all (J inp) (Theta inp)
                      (\<lambda>i t. \<bar>A_hat_up inp st i t - A_hat st i t\<bar>) / real (J inp);
            A_new = (\<lambda>i t. conv inp * A_hat_up inp st i t + (1 - conv inp) * A_hat st i t)
        in Inr \<lparr>A_hat = A_new, A = A_new,
                O_vector_total = O_vector_total st @ [O_new],
                O_total = O_new,
                count = count st + 1\<rparr>)"

subsection \<open>The loop (line 138)\<close>

function while_loop :: "args \<Rightarrow> state \<Rightarrow> error + state" where
  "while_loop inp st =
     (if O_total st > tolerance inp \<and> count st \<le> maxiter inp
      then (case pass inp st of
              Inl e \<Rightarrow> Inl e
            | Inr st' \<Rightarrow> while_loop inp st')
      else Inr st)"
  by pat_completeness auto
termination
  by (relation "measure (\<lambda>(inp, st). nat (maxiter inp + 1 - count st))")
     (auto simp: pass_def Let_def split: if_splits)

declare while_loop.simps [simp del]

subsection \<open>The function\<close>

text \<open>The loop variables before the first pass (lines 130-135).\<close>

definition initial :: state where
  "initial = \<lparr>A_hat = (\<lambda>i t. 1), A = (\<lambda>i t. 1),
              O_vector_total = [], O_total = 100000, count = 1\<rparr>"

text \<open>
  Everything up to the end of the loop: the two dimension checks, then the
  preprocessing, where \<^verbatim>\<open>L[0]\<close> raises on an array without rows, then the loop.
\<close>

definition solve :: "args \<Rightarrow> error + state" where
  "solve inp =
     (if card (set (row_counts inp)) \<noteq> 1
      then Inl (ValueError ''Dimension mismatch: variables do not have the same length''
                  (row_counts inp))
      else if card (set (column_counts inp)) \<noteq> 1
      then Inl (ValueError
                  ''Dimension mismatch: variables do not have the same number of columns''
                  (column_counts inp))
      else if J inp = 0 then Inl IndexError
      else while_loop inp initial)"

text \<open>
  \<^verbatim>\<open>return(A[:,0])\<close>: column 0 of the final iterate as a sequence of length J;
  an array without columns has no column 0.
\<close>

definition invert_quality_of_life :: "args \<Rightarrow> error + real list" where
  "invert_quality_of_life inp =
     (case solve inp of
        Inl e \<Rightarrow> Inl e
      | Inr st \<Rightarrow>
          if Theta inp = 0 then Inl IndexError
          else Inr (map (\<lambda>i. A st i 0) [0..<J inp]))"

text \<open>
  The loop variables after \<open>n\<close> executions of the body, started from the first
  guess: the states the loop goes through are \<open>passes inp 0\<close>,
  \<open>passes inp 1\<close>, ... up to the pass after which its test fails.
\<close>

fun passes :: "args \<Rightarrow> nat \<Rightarrow> error + state" where
  "passes inp 0 = Inr initial"
| "passes inp (Suc n) =
     (case passes inp n of
        Inl e \<Rightarrow> Inl e
      | Inr st \<Rightarrow> pass inp st)"

subsection \<open>Inputs\<close>

text \<open>
  The invariant of the data model: the six arrays have one row count, and the three
  arrays with one column per problem instance have one column count.
\<close>

definition share_row_count :: "args \<Rightarrow> bool" where
  "share_row_count inp \<longleftrightarrow>
     shape0 (w inp) = shape0 (p_H inp) \<and> shape0 (p_H inp) = shape0 (P_t inp)
     \<and> shape0 (P_t inp) = shape0 (p_n inp) \<and> shape0 (p_n inp) = shape0 (L inp)
     \<and> shape0 (L inp) = shape0 (L_b inp)"

definition share_column_count :: "args \<Rightarrow> bool" where
  "share_column_count inp \<longleftrightarrow>
     shape1 (w inp) = shape1 (L inp) \<and> shape1 (L inp) = shape1 (L_b inp)"

text \<open>
  Positive data: arrays of matching shapes with at least one row and one column, all of
  whose entries (wages, prices, populations) are positive.
\<close>

definition positive_data :: "args \<Rightarrow> bool" where
  "positive_data inp \<longleftrightarrow>
     share_row_count inp \<and> share_column_count inp
     \<and> 0 < J inp \<and> 0 < Theta inp
     \<and> (\<forall>i<J inp.
            0 < item (P_t inp) i 0 \<and> 0 < item (p_H inp) i 0 \<and> 0 < item (p_n inp) i 0
            \<and> (\<forall>t<Theta inp.
                   0 < item (w inp) i t \<and> 0 < item (L inp) i t \<and> 0 < item (L_b inp) i t))"

text \<open>
  Valid input: positive data and a damping factor between 0 and 1. On such input every
  iterate is positive, every divisor of the computation is non-zero and every base of a
  power is positive.
\<close>

definition valid_input :: "args \<Rightarrow> bool" where
  "valid_input inp \<longleftrightarrow> positive_data inp \<and> 0 \<le> conv inp \<and> conv inp \<le> 1"

text \<open>An array given by its rows, each of \<open>k\<close> entries.\<close>

definition array :: "nat \<Rightarrow> real list list \<Rightarrow> ndarray" where
  "array k rows = \<lparr>shape0 = length rows, shape1 = k, item = (\<lambda>i t. rows ! i ! t)\<rparr>"

text \<open>Every entry of an array multiplied by a constant.\<close>

definition scale :: "real \<Rightarrow> ndarray \<Rightarrow> ndarray" where
  "scale c X = X\<lparr>item := (\<lambda>i t. c * item X i t)\<rparr>"

text \<open>The default values of the keyword parameters (lines 15-21), around six arrays.\<close>

definition with_defaults ::
  "ndarray \<Rightarrow> ndarray \<Rightarrow> ndarray \<Rightarrow> ndarray \<Rightarrow> ndarray \<Rightarrow> ndarray \<Rightarrow> args" where
  "with_defaults x_w x_p_H x_P_t x_p_n x_L x_L_b =
     \<lparr>L_b = x_L_b, L = x_L, w = x_w, P_t = x_P_t, p_H = x_p_H, p_n = x_p_n,
      alpha = 7 / 10, beta = 1 / 2, gamma = 3, xi = 11 / 2, conv = 1 / 2,
      tolerance = 1 / 10 ^ 10, maxiter = 10000\<rparr>"

text \<open>Two locations that differ, one problem instance.\<close>

definition two_locations :: args where
  "two_locations =
     with_defaults (array 1 [[2], [3]]) (array 1 [[4], [5]]) (array 1 [[1], [2]])
       (array 1 [[3], [2]]) (array 1 [[10], [30]]) (array 1 [[8], [12]])"

text \<open>Two identical locations, one problem instance.\<close>

definition twin_locations :: args where
  "twin_locations =
     with_defaults (array 1 [[2], [2]]) (array 1 [[4], [4]]) (array 1 [[1], [1]])
       (array 1 [[3], [3]]) (array 1 [[10], [10]]) (array 1 [[8], [8]])"

text \<open>The same two locations with a third row of \<open>L\<close> only.\<close>

definition mismatched_rows :: args where
  "mismatched_rows = two_locations\<lparr>L := array 1 [[10], [30], [20]]\<rparr>"

text \<open>Two locations, two problem instances.\<close>

definition two_instances :: args where
  "two_instances =
     with_defaults (array 2 [[2, 1], [3, 4]]) (array 1 [[4], [5]]) (array 1 [[1], [2]])
       (array 1 [[3], [2]]) (array 2 [[10, 7], [30, 9]]) (array 2 [[8, 6], [12, 5]])"

subsection \<open>The update and the stopping rule in the words of the specification\<close>

text \<open>
  The formulas of the fixed-point iteration over index sets, with the arrays and
  scalars they mention as parameters: \<open>n\<close> is the number of locations, \<open>k\<close> the
  number of problem instances.
\<close>

definition spec_nom ::
  "(nat \<Rightarrow> nat \<Rightarrow> real) \<Rightarrow> (nat \<Rightarrow> nat \<Rightarrow> real) \<Rightarrow> (nat \<Rightarrow> real) \<Rightarrow> real
     \<Rightarrow> nat \<Rightarrow> nat \<Rightarrow> real" where
  "spec_nom x_A_hat x_w x_P g i t = (x_A_hat i t * x_w i t / x_P i) powr g"

definition spec_Psi_b :: "nat \<Rightarrow> real \<Rightarrow> (nat \<Rightarrow> nat \<Rightarrow> real) \<Rightarrow> nat \<Rightarrow> nat \<Rightarrow> real" where
  "spec_Psi_b n x x_nom i t = inverse ((exp x - 1) * x_nom i t / (\<Sum>j<n. x_nom j t) + 1)"

definition spec_mathcal_L ::
  "nat \<Rightarrow> real \<Rightarrow> (nat \<Rightarrow> nat \<Rightarrow> real) \<Rightarrow> (nat \<Rightarrow> nat \<Rightarrow> real) \<Rightarrow> nat \<Rightarrow> nat \<Rightarrow> real" where
  "spec_mathcal_L n x x_L_b x_Psi_b i t =
     (\<Sum>j<n. x_L_b j t * x_Psi_b j t) + x_L_b i t * x_Psi_b i t * (exp x - 1)"

text \<open>The first-observation-relative form of an array.\<close>

definition relative :: "(nat \<Rightarrow> nat \<Rightarrow> real) \<Rightarrow> nat \<Rightarrow> nat \<Rightarrow> real" where
  "relative X i t = X i t / X 0 t"

definition spec_A_hat_new ::
  "real \<Rightarrow> (nat \<Rightarrow> real) \<Rightarrow> (nat \<Rightarrow> nat \<Rightarrow> real) \<Rightarrow> (nat \<Rightarrow> nat \<Rightarrow> real)
     \<Rightarrow> (nat \<Rightarrow> nat \<Rightarrow> real) \<Rightarrow> nat \<Rightarrow> nat \<Rightarrow> real" where
  "spec_A_hat_new g x_P_hat x_w_hat x_L_hat x_mathcal_L_hat i t =
     x_P_hat i * (1 / x_w_hat i t) * (x_L_hat i t / x_mathcal_L_hat i t) powr (1 / g)"

text \<open>
  The convergence metric: the mean over the locations of the absolute deviation, per
  problem instance, summed over the instances.
\<close>

definition spec_O_total ::
  "nat \<Rightarrow> nat \<Rightarrow> (nat \<Rightarrow> nat \<Rightarrow> real) \<Rightarrow> (nat \<Rightarrow> nat \<Rightarrow> real) \<Rightarrow> real" where
  "spec_O_total n k x_new x_old = (\<Sum>t<k. (\<Sum>i<n. \<bar>x_new i t - x_old i t\<bar>) / real n)"

subsection \<open>Properties of the iterate\<close>

text \<open>
  The iterate is normalized to the first location and positive: what every pass
  keeps on valid input.
\<close>

definition normalized :: "args \<Rightarrow> state \<Rightarrow> bool" where
  "normalized inp st \<longleftrightarrow>
     A st = A_hat st
     \<and> (\<forall>t<Theta inp. A_hat st 0 t = 1)
     \<and> (\<forall>i<J inp. \<forall>t<Theta inp. 0 < A_hat st i t)"

text \<open>The iterate is 1 at every location and instance.\<close>

definition uniform :: "args \<Rightarrow> state \<Rightarrow> bool" where
  "uniform inp st \<longleftrightarrow> A st = A_hat st \<and> (\<forall>i<J inp. \<forall>t<Theta inp. A_hat st i t = 1)"

text \<open>All locations have the same wage, prices and populations.\<close>

definition identical_locations :: "args \<Rightarrow> bool" where
  "identical_locations inp \<longleftrightarrow>
     (\<forall>i<J inp.
        item (P_t inp) i 0 = item (P_t inp) 0 0
        \<and> item (p_H inp) i 0 = item (p_H inp) 0 0
        \<and> item (p_n inp) i 0 = item (p_n inp) 0 0
        \<and> (\<forall>t<Theta inp.
               item (w inp) i t = item (w inp) 0 t
               \<and> item (L inp) i t = item (L inp) 0 t
               \<and> item (L_b inp) i t = item (L_b inp) 0 t))"

section \<open>Properties\<close>

subsection \<open>The checks and the loop\<close>

lemma card_set6: "card (set [a,b,c,d,e,f::nat]) = 1 \<longleftrightarrow> a = b \<and> b = c \<and> c = d \<and> d = e \<and> e = f"
  by (auto simp: card_insert_if)

lemma card_set3: "card (set [a,b,c::nat]) = 1 \<longleftrightarrow> a = b \<and> b = c"
  by (auto simp: card_insert_if)

lemma row_check: "card (set (row_counts inp)) = 1 \<longleftrightarrow> share_row_count inp"
  unfolding row_counts_def share_row_count_def card_set6 by auto

lemma column_check: "card (set (column_counts inp)) = 1 \<longleftrightarrow> share_column_count inp"
  unfolding column_counts_def share_column_count_def card_set3 by auto

lemma pass_cases:
  "pass inp st = Inl e \<longleftrightarrow> gamma inp = 0 \<and> e = ZeroDivisionError"
  by (auto simp: pass_def Let_def)

lemma pass_Inr_iff:
  "gamma inp \<noteq> 0 \<Longrightarrow> \<exists>st'. pass inp st = Inr st'"
  by (simp add: pass_def Let_def)

lemma while_loop_rule:
  assumes "while_loop inp st = Inr st'"
    and "Q st"
    and "\<And>s s'. Q s \<Longrightarrow> O_total s > tolerance inp \<Longrightarrow> count s \<le> maxiter inp
           \<Longrightarrow> pass inp s = Inr s' \<Longrightarrow> Q s'"
  shows "Q st' \<and> \<not> (O_total st' > tolerance inp \<and> count st' \<le> maxiter inp)"
  using assms
proof (induction inp st rule: while_loop.induct)
  case (1 inp st)
  note step = "1.prems"(3)
  show ?case
  proof (cases "O_total st > tolerance inp \<and> count st \<le> maxiter inp")
    case False
    with "1.prems"(1,2) show ?thesis
      by (subst (asm) while_loop.simps) auto
  next
    case True
    show ?thesis
    proof (cases "pass inp st")
      case (Inl e)
      with True "1.prems"(1) show ?thesis
        by (subst (asm) while_loop.simps) simp
    next
      case (Inr s1)
      with True "1.prems"(1) have run: "while_loop inp s1 = Inr st'"
        by (subst (asm) while_loop.simps) simp
      have "Q s1"
        using step [OF "1.prems"(2) _ _ Inr] True by simp
      from "1.IH" [OF True Inr run this step] show ?thesis by simp
    qed
  qed
qed

lemma while_loop_error: "while_loop inp st = Inl e \<Longrightarrow> e = ZeroDivisionError \<and> gamma inp = 0"
proof (induction inp st rule: while_loop.induct)
  case (1 inp st)
  from "1.prems" have guard: "O_total st > tolerance inp \<and> count st \<le> maxiter inp"
    by (subst (asm) while_loop.simps) (simp split: if_splits)
  show ?case
  proof (cases "pass inp st")
    case (Inl e')
    with "1.prems" guard have "e' = e"
      by (subst (asm) while_loop.simps) simp
    with Inl show ?thesis by (simp add: pass_cases)
  next
    case (Inr st')
    with "1.prems" guard have "while_loop inp st' = Inl e"
      by (subst (asm) while_loop.simps) simp
    from "1.IH" [OF guard Inr this] show ?thesis .
  qed
qed

lemma while_loop_returns:
  assumes "gamma inp \<noteq> 0"
  shows "\<exists>st'. while_loop inp st = Inr st'"
proof (cases "while_loop inp st")
  case (Inl e)
  with while_loop_error [OF Inl] assms show ?thesis by simp
next
  case (Inr st')
  then show ?thesis by blast
qed

lemma pass_fields:
  assumes "pass inp s = Inr s'"
  shows "A s' = A_hat s'"
    and "count s' = count s + 1"
    and "length (O_vector_total s') = Suc (length (O_vector_total s))"
    and "O_total s' = last (O_vector_total s')"
  using assms by (auto simp: pass_def Let_def split: if_splits)

lemma while_loop_alias:
  assumes "while_loop inp st = Inr st'" and "A st = A_hat st"
  shows "A st' = A_hat st'"
  by (rule conjunct1 [OF while_loop_rule [where Q = "\<lambda>s. A s = A_hat s", OF assms]])
     (simp add: pass_fields)

lemma while_loop_count:
  assumes "while_loop inp st = Inr st'"
    and "count st = 1 + int (length (O_vector_total st))"
  shows "count st' = 1 + int (length (O_vector_total st'))"
  by (rule conjunct1 [OF while_loop_rule
        [where Q = "\<lambda>s. count s = 1 + int (length (O_vector_total s))", OF assms]])
     (simp add: pass_fields)

lemma while_loop_bound:
  assumes "while_loop inp st = Inr st'" and "count st \<le> max 1 (maxiter inp + 1)"
  shows "count st' \<le> max 1 (maxiter inp + 1)"
  by (rule conjunct1 [OF while_loop_rule
        [where Q = "\<lambda>s. count s \<le> max 1 (maxiter inp + 1)", OF assms]])
     (simp add: pass_fields)

lemma while_loop_passes:
  assumes "while_loop inp st = Inr st'"
    and "passes inp (length (O_vector_total st)) = Inr st"
  shows "passes inp (length (O_vector_total st')) = Inr st'"
  by (rule conjunct1 [OF while_loop_rule
        [where Q = "\<lambda>s. passes inp (length (O_vector_total s)) = Inr s", OF assms]])
     (simp add: pass_fields)

lemma solve_checked:
  "solve inp =
     (if \<not> share_row_count inp
      then Inl (ValueError ''Dimension mismatch: variables do not have the same length''
                  (row_counts inp))
      else if \<not> share_column_count inp
      then Inl (ValueError
                  ''Dimension mismatch: variables do not have the same number of columns''
                  (column_counts inp))
      else if J inp = 0 then Inl IndexError
      else while_loop inp initial)"
  unfolding solve_def row_check column_check ..

lemma solve_Inr:
  "solve inp = Inr st \<longleftrightarrow>
     share_row_count inp \<and> share_column_count inp \<and> 0 < J inp \<and> while_loop inp initial = Inr st"
  by (simp add: solve_checked)

lemma solve_ValueError:
  "(\<exists>msg ns. solve inp = Inl (ValueError msg ns)) \<longleftrightarrow>
     \<not> share_row_count inp \<or> \<not> share_column_count inp"
  by (auto simp: solve_checked dest: while_loop_error)

lemma invert_ValueError:
  "invert_quality_of_life inp = Inl (ValueError msg ns) \<longleftrightarrow> solve inp = Inl (ValueError msg ns)"
  by (auto simp: invert_quality_of_life_def split: sum.splits)

lemma solve_alias: "solve inp = Inr st \<Longrightarrow> A st = A_hat st"
  using while_loop_alias [of inp initial st] by (simp add: solve_Inr initial_def)

lemma solve_count: "solve inp = Inr st \<Longrightarrow> count st = 1 + int (length (O_vector_total st))"
  using while_loop_count [of inp initial st] by (simp add: solve_Inr initial_def)

lemma solve_bound: "solve inp = Inr st \<Longrightarrow> count st \<le> max 1 (maxiter inp + 1)"
  using while_loop_bound [of inp initial st] by (simp add: solve_Inr initial_def)

lemma solve_passes: "solve inp = Inr st \<Longrightarrow> passes inp (length (O_vector_total st)) = Inr st"
  using while_loop_passes [of inp initial st] by (simp add: solve_Inr initial_def)

lemma solve_exit:
  "solve inp = Inr st \<Longrightarrow> \<not> (O_total st > tolerance inp \<and> count st \<le> maxiter inp)"
  using while_loop_rule [where Q = "\<lambda>s. True" and inp = inp and st = initial and st' = st]
  by (auto simp: solve_Inr)

lemma solve_returns:
  assumes "share_row_count inp" "share_column_count inp" "0 < J inp" "gamma inp \<noteq> 0"
  shows "\<exists>st. solve inp = Inr st"
  using while_loop_returns [OF assms(4), of initial] assms(1-3) by (auto simp: solve_Inr)

lemma invert_returns:
  assumes "share_row_count inp" "share_column_count inp" "0 < J inp" "0 < Theta inp"
    "gamma inp \<noteq> 0"
  shows "\<exists>v. invert_quality_of_life inp = Inr v"
  using solve_returns [OF assms(1-3,5)] assms(4) by (auto simp: invert_quality_of_life_def)

lemmas example_defs =
  two_locations_def twin_locations_def mismatched_rows_def two_instances_def
  with_defaults_def array_def share_row_count_def share_column_count_def J_def Theta_def


lemma sum_axis0_sum: "sum_axis0 n X t = (\<Sum>i<n. X i t)"
  by (simp add: sum_axis0_def interv_sum_list_conv_sum_set_nat atLeast0LessThan)

lemma sum_all_sum: "sum_all n k X = (\<Sum>i<n. \<Sum>t<k. X i t)"
  by (simp add: sum_all_def interv_sum_list_conv_sum_set_nat atLeast0LessThan)

lemma sum_all_nonneg: "(\<And>i t. 0 \<le> X i t) \<Longrightarrow> 0 \<le> sum_all n k X"
  by (simp add: sum_all_sum sum_nonneg)

lemma pass_O_total_nonneg: "pass inp s = Inr s' \<Longrightarrow> 0 \<le> O_total s'"
  by (auto simp: pass_def Let_def sum_all_nonneg split: if_splits)

lemma solve_O_total_nonneg:
  assumes "solve inp = Inr st"
  shows "0 \<le> O_total st"
proof -
  from assms have "while_loop inp initial = Inr st" by (simp add: solve_Inr)
  from conjunct1 [OF while_loop_rule [where Q = "\<lambda>s. 0 \<le> O_total s", OF this]]
  show ?thesis by (simp add: initial_def pass_O_total_nonneg)
qed

subsection \<open>Sums, positivity and the normalized iterate\<close>

lemma sum_axis0_pos:
  assumes "0 < n" and "\<And>i. i < n \<Longrightarrow> 0 < X i t"
  shows "0 < sum_axis0 n X t"
  unfolding sum_axis0_sum using assms by (intro sum_pos) auto

lemma sum_axis0_member_le:
  assumes "i < n" and "\<And>j. j < n \<Longrightarrow> 0 \<le> X j t"
  shows "X i t \<le> sum_axis0 n X t"
  unfolding sum_axis0_sum using assms by (intro member_le_sum) auto

lemma positive_dataD:
  assumes "positive_data inp"
  shows "share_row_count inp" "share_column_count inp" "0 < J inp" "0 < Theta inp"
    "\<And>i. i < J inp \<Longrightarrow> 0 < item (P_t inp) i 0"
    "\<And>i. i < J inp \<Longrightarrow> 0 < item (p_H inp) i 0"
    "\<And>i. i < J inp \<Longrightarrow> 0 < item (p_n inp) i 0"
    "\<And>i t. i < J inp \<Longrightarrow> t < Theta inp \<Longrightarrow> 0 < item (w inp) i t"
    "\<And>i t. i < J inp \<Longrightarrow> t < Theta inp \<Longrightarrow> 0 < item (L inp) i t"
    "\<And>i t. i < J inp \<Longrightarrow> t < Theta inp \<Longrightarrow> 0 < item (L_b inp) i t"
  using assms unfolding positive_data_def by blast+

lemma P_pos:
  assumes "positive_data inp" "i < J inp"
  shows "0 < P inp i 0"
proof -
  have "item (P_t inp) i 0 \<noteq> 0" "item (p_n inp) i 0 \<noteq> 0" "item (p_H inp) i 0 \<noteq> 0"
    using positive_dataD(5-7) [OF assms] by simp_all
  then show ?thesis by (simp add: P_def)
qed

lemma P_hat_pos:
  assumes "positive_data inp" "i < J inp"
  shows "0 < P_hat inp i 0"
proof -
  have "item (P_t inp) i 0 \<noteq> 0" "item (p_n inp) i 0 \<noteq> 0" "item (p_H inp) i 0 \<noteq> 0"
    using positive_dataD(5-7) [OF assms] by simp_all
  moreover have "item (P_t inp) 0 0 \<noteq> 0" "item (p_n inp) 0 0 \<noteq> 0" "item (p_H inp) 0 0 \<noteq> 0"
    using positive_dataD(5-7) [OF assms(1) positive_dataD(3) [OF assms(1)]] by simp_all
  ultimately show ?thesis
    by (simp add: P_hat_def P_t_hat_def p_n_hat_def p_H_hat_def)
qed

lemma P_hat_first:
  assumes "positive_data inp"
  shows "P_hat inp 0 0 = 1"
proof -
  have "item (P_t inp) 0 0 \<noteq> 0" "item (p_n inp) 0 0 \<noteq> 0" "item (p_H inp) 0 0 \<noteq> 0"
    using positive_dataD(5-7) [OF assms positive_dataD(3) [OF assms]] by simp_all
  then show ?thesis
    by (simp add: P_hat_def P_t_hat_def p_n_hat_def p_H_hat_def)
qed

lemma L_b_rescaled_pos:
  assumes "positive_data inp" "i < J inp" "t < Theta inp"
  shows "0 < L_b_rescaled inp i t"
proof -
  have "0 < sum_axis0 (J inp) (item (L inp)) t"
    using positive_dataD(3,9) [OF assms(1)] assms(3) by (intro sum_axis0_pos) auto
  moreover have "0 < sum_axis0 (J inp) (item (L_b inp)) t"
    using positive_dataD(3,10) [OF assms(1)] assms(3) by (intro sum_axis0_pos) auto
  moreover have "0 < item (L_b inp) i t"
    using positive_dataD(10) [OF assms] .
  ultimately show ?thesis
    by (simp add: L_b_rescaled_def L_b_adjust_def L_bar_def)
qed

text \<open>The iterate is positive inside the shape.\<close>

lemma nom_pos:
  assumes "positive_data inp" "\<And>i t. i < J inp \<Longrightarrow> t < Theta inp \<Longrightarrow> 0 < A st i t"
    "i < J inp" "t < Theta inp"
  shows "0 < nom inp st i t"
proof -
  have "A st i t \<noteq> 0" using assms(2) [OF assms(3,4)] by simp
  moreover have "item (w inp) i t \<noteq> 0" using positive_dataD(8) [OF assms(1,3,4)] by simp
  moreover have "P inp i 0 \<noteq> 0" using P_pos [OF assms(1,3)] by simp
  ultimately show ?thesis by (simp add: nom_def)
qed

lemma Psi_b_pos:
  assumes "positive_data inp" "\<And>i t. i < J inp \<Longrightarrow> t < Theta inp \<Longrightarrow> 0 < A st i t"
    "i < J inp" "t < Theta inp"
  shows "0 < Psi_b inp st i t"
proof -
  define s where "s = nom inp st i t"
  define S where "S = sum_axis0 (J inp) (nom inp st) t"
  define e where "e = exp (xi inp)"
  have s: "0 < s" unfolding s_def using assms by (rule nom_pos)
  have S: "0 < S" unfolding S_def
    using positive_dataD(3) [OF assms(1)] nom_pos [OF assms(1,2) _ assms(4)]
    by (intro sum_axis0_pos) auto
  have sS: "s \<le> S" unfolding s_def S_def
    using nom_pos [OF assms(1,2) _ assms(4)] assms(3)
    by (intro sum_axis0_member_le) (auto intro: less_imp_le)
  have e: "0 < e" unfolding e_def by simp
  have "(e - 1) * s / S + 1 = (e * s + (S - s)) / S"
    using S by (simp add: field_simps)
  moreover have "0 < (e * s + (S - s)) / S"
    using s S sS e by (intro divide_pos_pos add_pos_nonneg mult_pos_pos) auto
  ultimately have "0 < (e - 1) * s / S + 1" by simp
  then show ?thesis
    unfolding Psi_b_def s_def [symmetric] S_def [symmetric] e_def [symmetric] by simp
qed

lemma mathcal_L_pos:
  assumes "positive_data inp" "\<And>i t. i < J inp \<Longrightarrow> t < Theta inp \<Longrightarrow> 0 < A st i t"
    "i < J inp" "t < Theta inp"
  shows "0 < mathcal_L inp st i t"
proof -
  define a where "a = (\<lambda>j s. L_b_rescaled inp j s * Psi_b inp st j s)"
  define e where "e = exp (xi inp)"
  have a: "0 < a j t" if "j < J inp" for j
    unfolding a_def using L_b_rescaled_pos [OF assms(1) that assms(4)]
      Psi_b_pos [OF assms(1,2) that assms(4)] by simp
  have "a i t \<le> sum_axis0 (J inp) a t"
    using a assms(3) by (intro sum_axis0_member_le) (auto intro: less_imp_le)
  moreover have "0 < a i t * e" using a [OF assms(3)] by (simp add: e_def)
  moreover have "a i t + a i t * (e - 1) = a i t * e" by (simp add: algebra_simps)
  ultimately have "0 < sum_axis0 (J inp) a t + a i t * (e - 1)" by linarith
  then show ?thesis
    unfolding mathcal_L_def a_def e_def by simp
qed

lemma A_hat_up_pos:
  assumes "positive_data inp" "\<And>i t. i < J inp \<Longrightarrow> t < Theta inp \<Longrightarrow> 0 < A st i t"
    "i < J inp" "t < Theta inp"
  shows "0 < A_hat_up inp st i t"
proof -
  note J0 = positive_dataD(3) [OF assms(1)]
  have "0 < w_hat inp i t"
    using positive_dataD(8) [OF assms(1,3,4)] positive_dataD(8) [OF assms(1) J0 assms(4)]
    by (simp add: w_hat_def)
  moreover have "L_hat inp i t \<noteq> 0"
    using positive_dataD(9) [OF assms(1,3,4)] positive_dataD(9) [OF assms(1) J0 assms(4)]
    by (simp add: L_hat_def)
  moreover have "mathcal_L_hat inp st i t \<noteq> 0"
    using mathcal_L_pos [OF assms] mathcal_L_pos [OF assms(1,2) J0 assms(4)]
    by (simp add: mathcal_L_hat_def)
  moreover note P_hat_pos [OF assms(1,3)]
  ultimately show ?thesis by (simp add: A_hat_up_def)
qed

lemma A_hat_up_first:
  assumes "positive_data inp" "\<And>i t. i < J inp \<Longrightarrow> t < Theta inp \<Longrightarrow> 0 < A st i t"
    "t < Theta inp"
  shows "A_hat_up inp st 0 t = 1"
proof -
  note J0 = positive_dataD(3) [OF assms(1)]
  have "w_hat inp 0 t = 1"
    using positive_dataD(8) [OF assms(1) J0 assms(3)] by (simp add: w_hat_def)
  moreover have "L_hat inp 0 t = 1"
    using positive_dataD(9) [OF assms(1) J0 assms(3)] by (simp add: L_hat_def)
  moreover have "mathcal_L_hat inp st 0 t = 1"
    using mathcal_L_pos [OF assms(1,2) J0 assms(3)] by (simp add: mathcal_L_hat_def)
  ultimately show ?thesis by (simp add: A_hat_up_def P_hat_first [OF assms(1)])
qed

lemma pass_normalized:
  assumes "valid_input inp" "normalized inp st" "pass inp st = Inr st'"
  shows "normalized inp st'"
proof -
  from assms(1) have pd: "positive_data inp" and c: "0 \<le> conv inp" "conv inp \<le> 1"
    by (simp_all add: valid_input_def)
  from assms(2) have al: "A st = A_hat st"
    and one: "\<And>t. t < Theta inp \<Longrightarrow> A_hat st 0 t = 1"
    and pos: "\<And>i t. i < J inp \<Longrightarrow> t < Theta inp \<Longrightarrow> 0 < A_hat st i t"
    by (auto simp: normalized_def)
  have posA: "\<And>i t. i < J inp \<Longrightarrow> t < Theta inp \<Longrightarrow> 0 < A st i t"
    using pos al by simp
  from assms(3) have new: "A_hat st' i t
      = conv inp * A_hat_up inp st i t + (1 - conv inp) * A_hat st i t" for i t
    by (auto simp: pass_def Let_def split: if_splits)
  have "A_hat st' 0 t = 1" if "t < Theta inp" for t
    unfolding new using A_hat_up_first [OF pd posA that] one [OF that]
    by (simp add: algebra_simps)
  moreover have "0 < A_hat st' i t" if "i < J inp" "t < Theta inp" for i t
  proof -
    have u: "0 < A_hat_up inp st i t" using pd posA that by (rule A_hat_up_pos)
    have a: "0 < A_hat st i t" using that by (rule pos)
    show ?thesis
    proof (cases "conv inp = 0")
      case True
      with a show ?thesis unfolding new by simp
    next
      case False
      with c have "0 < conv inp * A_hat_up inp st i t" using u by simp
      moreover have "0 \<le> (1 - conv inp) * A_hat st i t" using c a by simp
      ultimately show ?thesis unfolding new by linarith
    qed
  qed
  moreover have "A st' = A_hat st'" using assms(3) by (rule pass_fields)
  ultimately show ?thesis by (simp add: normalized_def)
qed

lemma initial_normalized: "normalized inp initial"
  by (simp add: normalized_def initial_def)

lemma passes_normalized:
  assumes "valid_input inp"
  shows "passes inp n = Inr st \<Longrightarrow> normalized inp st"
proof (induction n arbitrary: st)
  case 0
  then show ?case by (simp add: initial_normalized)
next
  case (Suc n)
  then show ?case
    by (auto split: sum.splits intro: pass_normalized [OF assms])
qed

lemma rescaled_column_sum:
  "sum_axis0 (J inp) (L_b_rescaled inp) t
     = sum_axis0 (J inp) (item (L_b inp)) t * L_b_adjust inp t"
  by (simp add: sum_axis0_sum L_b_rescaled_def sum_distrib_right)

lemma two_locations_sums:
  "sum_axis0 (J two_locations) (item (L_b two_locations)) 0 = 20"
  "sum_axis0 (J two_locations) (item (L two_locations)) 0 = 40"
  by (simp_all add: sum_axis0_def example_defs upt_rec)

lemma O_total_as_spec:
  "sum_all n k (\<lambda>i t. \<bar>X i t - Y i t\<bar>) / real n = spec_O_total n k X Y"
proof -
  have "sum_all n k (\<lambda>i t. \<bar>X i t - Y i t\<bar>) = (\<Sum>t<k. \<Sum>i<n. \<bar>X i t - Y i t\<bar>)"
    unfolding sum_all_sum by (rule sum.swap)
  then show ?thesis
    by (simp add: spec_O_total_def sum_divide_distrib)
qed

lemma passes_alias: "passes inp n = Inr st \<Longrightarrow> A st = A_hat st"
  by (cases n) (auto simp: initial_def pass_fields split: sum.splits)

lemma positive_two_locations: "positive_data two_locations"
  by (simp add: positive_data_def example_defs less_Suc_eq numeral_2_eq_2)

lemma positive_two_instances: "positive_data two_instances"
  by (simp add: positive_data_def example_defs less_Suc_eq numeral_2_eq_2)

lemma positive_twin_locations: "positive_data twin_locations"
  by (simp add: positive_data_def example_defs less_Suc_eq numeral_2_eq_2)

lemma valid_two_locations: "valid_input two_locations"
  using positive_two_locations by (simp add: valid_input_def) (simp add: example_defs)

lemma valid_two_instances: "valid_input two_instances"
  using positive_two_instances by (simp add: valid_input_def) (simp add: example_defs)

subsection \<open>Identical locations\<close>

lemma identical_locationsD:
  assumes "identical_locations inp" "i < J inp"
  shows "item (P_t inp) i 0 = item (P_t inp) 0 0"
    "item (p_H inp) i 0 = item (p_H inp) 0 0"
    "item (p_n inp) i 0 = item (p_n inp) 0 0"
    "\<And>t. t < Theta inp \<Longrightarrow> item (w inp) i t = item (w inp) 0 t"
    "\<And>t. t < Theta inp \<Longrightarrow> item (L inp) i t = item (L inp) 0 t"
    "\<And>t. t < Theta inp \<Longrightarrow> item (L_b inp) i t = item (L_b inp) 0 t"
  using assms unfolding identical_locations_def by blast+

lemma A_hat_up_uniform:
  assumes "positive_data inp" "identical_locations inp" "uniform inp st"
    "i < J inp" "t < Theta inp"
  shows "A_hat_up inp st i t = 1"
proof -
  note J0 = positive_dataD(3) [OF assms(1)]
  from assms(3) have al: "A st = A_hat st"
    and one: "\<And>i t. i < J inp \<Longrightarrow> t < Theta inp \<Longrightarrow> A st i t = 1"
    by (auto simp: uniform_def)
  have posA: "\<And>i t. i < J inp \<Longrightarrow> t < Theta inp \<Longrightarrow> 0 < A st i t"
    using one by simp
  note same = identical_locationsD [OF assms(2,4)]
  have P1: "P_hat inp i 0 = 1"
    using same(1-3) P_hat_first [OF assms(1)]
    by (simp add: P_hat_def P_t_hat_def p_n_hat_def p_H_hat_def)
  have w1: "w_hat inp i t = 1"
    using same(4) [OF assms(5)] positive_dataD(8) [OF assms(1) J0 assms(5)]
    by (simp add: w_hat_def)
  have L1: "L_hat inp i t = 1"
    using same(5) [OF assms(5)] positive_dataD(9) [OF assms(1) J0 assms(5)]
    by (simp add: L_hat_def)
  have "P inp i 0 = P inp 0 0"
    using same(1-3) by (simp add: P_def)
  then have "nom inp st i t = nom inp st 0 t"
    using same(4) [OF assms(5)] one [OF assms(4,5)] one [OF J0 assms(5)]
    by (simp add: nom_def)
  then have "Psi_b inp st i t = Psi_b inp st 0 t"
    by (simp add: Psi_b_def)
  moreover have "L_b_rescaled inp i t = L_b_rescaled inp 0 t"
    using same(6) [OF assms(5)] by (simp add: L_b_rescaled_def)
  ultimately have "mathcal_L inp st i t = mathcal_L inp st 0 t"
    by (simp add: mathcal_L_def)
  then have m1: "mathcal_L_hat inp st i t = 1"
    using mathcal_L_pos [OF assms(1) posA J0 assms(5)] by (simp add: mathcal_L_hat_def)
  show ?thesis by (simp add: A_hat_up_def P1 w1 L1 m1)
qed

lemma pass_uniform:
  assumes "positive_data inp" "identical_locations inp" "uniform inp st"
    "pass inp st = Inr st'"
  shows "uniform inp st' \<and> O_total st' = 0"
proof -
  from assms(3) have one: "\<And>i t. i < J inp \<Longrightarrow> t < Theta inp \<Longrightarrow> A_hat st i t = 1"
    by (auto simp: uniform_def)
  note up = A_hat_up_uniform [OF assms(1-3)]
  from assms(4) have new: "A_hat st' i t
      = conv inp * A_hat_up inp st i t + (1 - conv inp) * A_hat st i t" for i t
    by (auto simp: pass_def Let_def split: if_splits)
  from assms(4) have O: "O_total st'
      = sum_all (J inp) (Theta inp) (\<lambda>i t. \<bar>A_hat_up inp st i t - A_hat st i t\<bar>) / real (J inp)"
    by (auto simp: pass_def Let_def split: if_splits)
  have "A_hat st' i t = 1" if "i < J inp" "t < Theta inp" for i t
    unfolding new using up [OF that] one [OF that] by (simp add: algebra_simps)
  moreover have "A st' = A_hat st'" using assms(4) by (rule pass_fields)
  moreover have "O_total st' = 0"
    unfolding O sum_all_sum using up one by simp
  ultimately show ?thesis by (simp add: uniform_def)
qed

lemma initial_uniform: "uniform inp initial"
  by (simp add: uniform_def initial_def)

lemma solve_uniform:
  assumes "positive_data inp" "identical_locations inp" "solve inp = Inr st"
  shows "uniform inp st"
proof -
  from assms(3) have "while_loop inp initial = Inr st" by (simp add: solve_Inr)
  from conjunct1 [OF while_loop_rule [where Q = "uniform inp", OF this initial_uniform]]
  show ?thesis using pass_uniform [OF assms(1,2)] by blast
qed

lemma converged_after_first_pass:
  assumes "0 \<le> tolerance inp" "tolerance inp < 100000" "1 \<le> maxiter inp"
    "pass inp initial = Inr st1" "O_total st1 = 0"
  shows "while_loop inp initial = Inr st1"
proof -
  have "while_loop inp initial = while_loop inp st1"
    using assms by (subst while_loop.simps) (simp add: initial_def)
  also have "\<dots> = Inr st1"
    using assms by (subst while_loop.simps) simp
  finally show ?thesis .
qed

lemma identical_twin_locations: "identical_locations twin_locations"
  by (simp add: identical_locations_def example_defs less_Suc_eq numeral_2_eq_2)

lemma maxiter_irrelevant:
  "positive_data (inp\<lparr>maxiter := m\<rparr>) = positive_data inp"
  "identical_locations (inp\<lparr>maxiter := m\<rparr>) = identical_locations inp"
  by (simp_all add: positive_data_def identical_locations_def share_row_count_def
      share_column_count_def J_def Theta_def)

subsection \<open>Scaling the wages\<close>

lemma scale_simps:
  "shape0 (scale c X) = shape0 X" "shape1 (scale c X) = shape1 X"
  "item (scale c X) i t = c * item X i t"
  by (simp_all add: scale_def)

lemma scaled_preprocessing:
  "J (inp\<lparr>w := scale c (w inp)\<rparr>) = J inp"
  "Theta (inp\<lparr>w := scale c (w inp)\<rparr>) = Theta inp"
  "row_counts (inp\<lparr>w := scale c (w inp)\<rparr>) = row_counts inp"
  "column_counts (inp\<lparr>w := scale c (w inp)\<rparr>) = column_counts inp"
  "P (inp\<lparr>w := scale c (w inp)\<rparr>) = P inp"
  "P_hat (inp\<lparr>w := scale c (w inp)\<rparr>) = P_hat inp"
  "L_hat (inp\<lparr>w := scale c (w inp)\<rparr>) = L_hat inp"
  "L_b_rescaled (inp\<lparr>w := scale c (w inp)\<rparr>) = L_b_rescaled inp"
  by (simp_all add: fun_eq_iff J_def Theta_def row_counts_def column_counts_def P_def P_hat_def
      P_t_hat_def p_n_hat_def p_H_hat_def L_hat_def L_b_rescaled_def L_b_adjust_def L_bar_def
      scale_simps)

lemma scaled_w_hat:
  "c \<noteq> 0 \<Longrightarrow> w_hat (inp\<lparr>w := scale c (w inp)\<rparr>) = w_hat inp"
  by (simp add: fun_eq_iff w_hat_def scale_simps)

lemma scaled_nom:
  "nom (inp\<lparr>w := scale c (w inp)\<rparr>) st i t = c powr gamma inp * nom inp st i t"
proof -
  have "nom (inp\<lparr>w := scale c (w inp)\<rparr>) st i t
          = (c * (A st i t * item (w inp) i t / P inp i 0)) powr gamma inp"
    by (simp add: nom_def scale_simps scaled_preprocessing ac_simps)
  also have "\<dots> = c powr gamma inp * nom inp st i t"
    by (simp only: powr_mult nom_def)
  finally show ?thesis .
qed

lemma scaled_Psi_b:
  assumes "c \<noteq> 0"
  shows "Psi_b (inp\<lparr>w := scale c (w inp)\<rparr>) st = Psi_b inp st"
proof (intro ext)
  fix i t
  define k where "k = c powr gamma inp"
  have k: "k \<noteq> 0" using assms by (simp add: k_def)
  have "sum_axis0 (J inp) (nom (inp\<lparr>w := scale c (w inp)\<rparr>) st) t
          = k * sum_axis0 (J inp) (nom inp st) t"
    by (simp add: sum_axis0_sum scaled_nom k_def sum_distrib_left)
  moreover have "(exp (xi inp) - 1) * (k * nom inp st i t) / (k * sum_axis0 (J inp) (nom inp st) t)
          = (exp (xi inp) - 1) * nom inp st i t / sum_axis0 (J inp) (nom inp st) t"
    using k by simp
  ultimately show "Psi_b (inp\<lparr>w := scale c (w inp)\<rparr>) st i t = Psi_b inp st i t"
    by (simp add: Psi_b_def scaled_preprocessing scaled_nom k_def)
qed

lemma scaled_A_hat_up:
  assumes "c \<noteq> 0"
  shows "A_hat_up (inp\<lparr>w := scale c (w inp)\<rparr>) st = A_hat_up inp st"
proof -
  have "mathcal_L (inp\<lparr>w := scale c (w inp)\<rparr>) st = mathcal_L inp st"
    by (simp add: fun_eq_iff mathcal_L_def scaled_preprocessing scaled_Psi_b [OF assms])
  then have "mathcal_L_hat (inp\<lparr>w := scale c (w inp)\<rparr>) st = mathcal_L_hat inp st"
    by (simp add: fun_eq_iff mathcal_L_hat_def)
  then show ?thesis
    by (simp add: fun_eq_iff A_hat_up_def scaled_preprocessing scaled_w_hat [OF assms])
qed

lemma scaled_pass:
  assumes "c \<noteq> 0"
  shows "pass (inp\<lparr>w := scale c (w inp)\<rparr>) st = pass inp st"
  by (simp add: pass_def scaled_preprocessing scaled_A_hat_up [OF assms])

lemma scaled_while_loop:
  assumes "c \<noteq> 0"
  shows "while_loop (inp\<lparr>w := scale c (w inp)\<rparr>) st = while_loop inp st"
proof (induction inp st rule: while_loop.induct)
  case (1 inp st)
  let ?inp = "inp\<lparr>w := scale c (w inp)\<rparr>"
  have l: "while_loop ?inp st =
     (if O_total st > tolerance inp \<and> count st \<le> maxiter inp
      then (case pass inp st of Inl e \<Rightarrow> Inl e | Inr st' \<Rightarrow> while_loop ?inp st')
      else Inr st)"
    by (subst while_loop.simps) (simp add: scaled_pass [OF assms])
  have r: "while_loop inp st =
     (if O_total st > tolerance inp \<and> count st \<le> maxiter inp
      then (case pass inp st of Inl e \<Rightarrow> Inl e | Inr st' \<Rightarrow> while_loop inp st')
      else Inr st)"
    by (rule while_loop.simps)
  show ?case
  proof (cases "O_total st > tolerance inp \<and> count st \<le> maxiter inp")
    case False
    then show ?thesis unfolding l r by auto
  next
    case True
    show ?thesis
    proof (cases "pass inp st")
      case (Inl e)
      with True show ?thesis unfolding l r by simp
    next
      case (Inr s1)
      from "1.IH" [OF True Inr] True Inr show ?thesis unfolding l r by simp
    qed
  qed
qed

subsection \<open>Runs on the example inputs\<close>

lemma not_entered:
  assumes "tolerance inp \<ge> 100000 \<or> maxiter inp < 1"
  shows "while_loop inp initial = Inr initial"
  using assms by (subst while_loop.simps) (auto simp: initial_def)

lemma raises_in_first_pass:
  assumes "gamma inp = 0" "tolerance inp < 100000" "1 \<le> maxiter inp"
  shows "while_loop inp initial = Inl ZeroDivisionError"
  using assms by (subst while_loop.simps) (simp add: initial_def pass_def)

lemma runs_to_cap:
  assumes "solve inp = Inr st" "tolerance inp < 0"
  shows "int (length (O_vector_total st)) = max 0 (maxiter inp)"
proof -
  from solve_O_total_nonneg [OF assms(1)] assms(2) have "tolerance inp < O_total st" by simp
  with solve_exit [OF assms(1)] have "maxiter inp < count st" by simp
  with solve_count [OF assms(1)] solve_bound [OF assms(1)] show ?thesis by simp
qed

lemma twin_coarse_tolerance:
  "solve (twin_locations\<lparr>tolerance := 100000\<rparr>) = Inr initial"
  by (simp add: solve_Inr not_entered) (simp add: example_defs)

lemma twin_gamma_zero:
  "invert_quality_of_life (twin_locations\<lparr>gamma := 0\<rparr>) = Inl ZeroDivisionError"
proof -
  have "while_loop (twin_locations\<lparr>gamma := 0\<rparr>) initial = Inl ZeroDivisionError"
    by (rule raises_in_first_pass) (simp_all add: example_defs)
  then have "solve (twin_locations\<lparr>gamma := 0\<rparr>) = Inl ZeroDivisionError"
    by (simp add: solve_checked) (simp add: example_defs)
  then show ?thesis by (simp add: invert_quality_of_life_def)
qed

lemma twin_negative_tolerance:
  "\<not> isl (solve (twin_locations\<lparr>tolerance := - 1\<rparr>))
   \<and> length (O_vector_total (projr (solve (twin_locations\<lparr>tolerance := - 1\<rparr>)))) = 10000"
proof -
  let ?inp = "twin_locations\<lparr>tolerance := - 1\<rparr>"
  have "\<exists>st. solve ?inp = Inr st"
    by (rule solve_returns) (simp_all add: example_defs)
  then obtain st where st: "solve ?inp = Inr st" ..
  have "int (length (O_vector_total st)) = max 0 (maxiter ?inp)"
    by (rule runs_to_cap [OF st]) (simp add: example_defs)
  then have "length (O_vector_total st) = 10000" by (simp add: example_defs)
  with st show ?thesis by simp
qed


lemma more_irrelevant:
  "positive_data (inp\<lparr>tolerance := x\<rparr>) = positive_data inp"
  "identical_locations (inp\<lparr>tolerance := x\<rparr>) = identical_locations inp"
  "positive_data (inp\<lparr>gamma := x\<rparr>) = positive_data inp"
  "identical_locations (inp\<lparr>gamma := x\<rparr>) = identical_locations inp"
  by (simp_all add: positive_data_def identical_locations_def share_row_count_def
      share_column_count_def J_def Theta_def)

lemma twin_no_pass:
  "positive_data (twin_locations\<lparr>maxiter := 0\<rparr>)
   \<and> identical_locations (twin_locations\<lparr>maxiter := 0\<rparr>)
   \<and> solve (twin_locations\<lparr>maxiter := 0\<rparr>) = Inr initial
   \<and> O_vector_total initial = [] \<and> O_total initial = 100000"
proof -
  let ?inp = "twin_locations\<lparr>maxiter := 0\<rparr>"
  have w: "while_loop ?inp initial = Inr initial"
    by (subst while_loop.simps) (simp add: initial_def)
  have s: "solve ?inp = Inr initial"
    by (simp add: solve_Inr w) (simp add: example_defs)
  have i: "O_vector_total initial = []" "O_total initial = 100000"
    by (simp_all add: initial_def)
  from s i positive_twin_locations identical_twin_locations show ?thesis
    by (simp only: maxiter_irrelevant simp_thms)
qed


section \<open>Claims\<close>

text \<open>
  C1. On valid input, whenever the function returns, the first element of the returned
  vector is 1. More strongly, the first row of the iterate \<open>A_hat\<close> is 1 in every
  column after any number of passes, the first guess included, so the output is
  normalized to the first location by the iteration itself; the return statement only
  selects column 0.
\<close>

theorem first_location_normalized:
  assumes "valid_input inp"
  shows "(\<forall>v. invert_quality_of_life inp = Inr v \<longrightarrow> v \<noteq> [] \<and> hd v = 1)
         \<and> (\<forall>n st. passes inp n = Inr st \<longrightarrow> (\<forall>t<Theta inp. A_hat st 0 t = 1))"
proof (intro conjI allI impI)
  from assms have pd: "positive_data inp" by (simp add: valid_input_def)
  fix v assume v: "invert_quality_of_life inp = Inr v"
  then obtain st where st: "solve inp = Inr st" and vm: "v = map (\<lambda>i. A st i 0) [0..<J inp]"
    by (auto simp: invert_quality_of_life_def split: sum.splits if_splits)
  note J0 = positive_dataD(3) [OF pd] and T0 = positive_dataD(4) [OF pd]
  from J0 vm show "v \<noteq> []" by simp
  have "normalized inp st"
    using assms solve_passes [OF st] by (rule passes_normalized)
  then have "A st 0 0 = 1" using T0 by (simp add: normalized_def)
  moreover from J0 vm have "hd v = A st 0 0" by (simp add: hd_map upt_conv_Cons)
  ultimately show "hd v = 1" by simp
next
  fix n st t assume "passes inp n = Inr st" "t < Theta inp"
  with passes_normalized [OF assms] show "A_hat st 0 t = 1"
    by (simp add: normalized_def)
qed

text \<open>C1 at \<open>two_instances\<close>: the returned vector, and the iterate after two passes.\<close>

theorem first_location_normalized_witness:
  "valid_input two_instances
   \<and> (\<exists>v. invert_quality_of_life two_instances = Inr v \<and> hd v = 1)
   \<and> (\<exists>st. passes two_instances 2 = Inr st \<and> A_hat st 0 0 = 1 \<and> A_hat st 0 1 = 1)"
proof -
  have "\<exists>v. invert_quality_of_life two_instances = Inr v"
    by (rule invert_returns) (simp_all add: example_defs)
  then obtain v where v: "invert_quality_of_life two_instances = Inr v" ..
  have g: "gamma two_instances \<noteq> 0" by (simp add: example_defs)
  obtain s1 where s1: "pass two_instances initial = Inr s1"
    using pass_Inr_iff [OF g] by blast
  obtain s2 where s2: "pass two_instances s1 = Inr s2"
    using pass_Inr_iff [OF g] by blast
  have p: "passes two_instances 2 = Inr s2"
    using s1 s2 by (simp add: numeral_2_eq_2)
  have T: "Theta two_instances = 2" by (simp add: example_defs)
  from first_location_normalized [OF valid_two_instances] v p T
  have "hd v = 1" "A_hat s2 0 0 = 1" "A_hat s2 0 1 = 1" by auto
  with v p valid_two_instances show ?thesis by blast
qed

text \<open>
  C2. The function raises the \<^verbatim>\<open>ValueError\<close> of a dimension mismatch if and only
  if the six extracted arrays do not all have the same number of rows or the three
  arrays \<open>w\<close>, \<open>L\<close>, \<open>L_b\<close> do not all have the same number of columns. The
  checks are the first thing \<open>solve\<close> does, before the preprocessing and the loop,
  and the error reports the shapes only. In particular \<open>L\<close> and \<open>L_b\<close> with
  different row counts raise it.
\<close>

theorem dimension_mismatch_iff:
  "((\<exists>msg ns. invert_quality_of_life inp = Inl (ValueError msg ns))
      \<longleftrightarrow> \<not> share_row_count inp \<or> \<not> share_column_count inp)
   \<and> (shape0 (L inp) \<noteq> shape0 (L_b inp)
        \<longrightarrow> (\<exists>msg ns. invert_quality_of_life inp = Inl (ValueError msg ns)))
   \<and> (\<not> share_row_count inp
        \<longrightarrow> invert_quality_of_life inp
            = Inl (ValueError ''Dimension mismatch: variables do not have the same length''
                     (row_counts inp)))
   \<and> (share_row_count inp \<and> \<not> share_column_count inp
        \<longrightarrow> invert_quality_of_life inp
            = Inl (ValueError
                     ''Dimension mismatch: variables do not have the same number of columns''
                     (column_counts inp)))"
proof -
  have "invert_quality_of_life inp
            = Inl (ValueError ''Dimension mismatch: variables do not have the same length''
                     (row_counts inp))"
    if "\<not> share_row_count inp"
    using that by (simp add: invert_quality_of_life_def solve_checked)
  moreover have "invert_quality_of_life inp
            = Inl (ValueError
                     ''Dimension mismatch: variables do not have the same number of columns''
                     (column_counts inp))"
    if "share_row_count inp \<and> \<not> share_column_count inp"
    using that by (simp add: invert_quality_of_life_def solve_checked)
  moreover have "(\<exists>msg ns. invert_quality_of_life inp = Inl (ValueError msg ns))
      \<longleftrightarrow> \<not> share_row_count inp \<or> \<not> share_column_count inp"
    unfolding invert_ValueError solve_ValueError ..
  moreover have "\<not> share_row_count inp" if "shape0 (L inp) \<noteq> shape0 (L_b inp)"
    using that by (auto simp: share_row_count_def)
  ultimately show ?thesis by blast
qed

text \<open>
  C2 at \<open>mismatched_rows\<close>, where \<open>L\<close> has three rows and the other arrays two
  (the error is raised), and at \<open>two_locations\<close>, where the shapes agree (it is not).
\<close>

theorem dimension_mismatch_iff_witness:
  "shape0 (L mismatched_rows) \<noteq> shape0 (L_b mismatched_rows)
   \<and> (\<exists>msg ns. invert_quality_of_life mismatched_rows = Inl (ValueError msg ns))
   \<and> share_row_count two_locations \<and> share_column_count two_locations
   \<and> \<not> (\<exists>msg ns. invert_quality_of_life two_locations = Inl (ValueError msg ns))"
  using dimension_mismatch_iff [of mismatched_rows] dimension_mismatch_iff [of two_locations]
  by (simp add: example_defs)

text \<open>
  C3. Non-convergence is not an error. If the loop ends with the objective still above
  the tolerance, then all \<open>maxiter\<close> passes have been executed and the function
  returns column 0 of the current iterate as a plain sequence: no error, and nothing in
  the returned value that tells a converged run from this one. The iterate has at least
  one column (\<open>0 < Theta\<close>): on an array without columns \<^verbatim>\<open>A[:,0]\<close> raises
  whether the run converged or not.
\<close>

theorem non_convergence_returns:
  assumes "solve inp = Inr st" and "tolerance inp < O_total st" and "0 < Theta inp"
  shows "invert_quality_of_life inp = Inr (map (\<lambda>i. A_hat st i 0) [0..<J inp])
         \<and> int (length (O_vector_total st)) = max 0 (maxiter inp)"
proof -
  from solve_exit [OF assms(1)] assms(2) have "maxiter inp < count st" by simp
  with solve_count [OF assms(1)] solve_bound [OF assms(1)]
  have "int (length (O_vector_total st)) = max 0 (maxiter inp)" by simp
  moreover from assms(1,3) solve_alias [OF assms(1)]
  have "invert_quality_of_life inp = Inr (map (\<lambda>i. A_hat st i 0) [0..<J inp])"
    by (simp add: invert_quality_of_life_def)
  ultimately show ?thesis by simp
qed

text \<open>
  C3 at \<open>two_locations\<close> with three passes allowed and a tolerance that no
  objective value can reach.
\<close>

theorem non_convergence_returns_witness:
  "\<exists>st. solve (two_locations\<lparr>tolerance := - 1, maxiter := 3\<rparr>) = Inr st
        \<and> tolerance (two_locations\<lparr>tolerance := - 1, maxiter := 3\<rparr>) < O_total st
        \<and> 0 < Theta (two_locations\<lparr>tolerance := - 1, maxiter := 3\<rparr>)
        \<and> invert_quality_of_life (two_locations\<lparr>tolerance := - 1, maxiter := 3\<rparr>)
            = Inr [A_hat st 0 0, A_hat st 1 0]
        \<and> length (O_vector_total st) = 3"
proof -
  let ?inp = "two_locations\<lparr>tolerance := - 1, maxiter := 3\<rparr>"
  have "\<exists>st. solve ?inp = Inr st"
    by (rule solve_returns) (simp_all add: example_defs)
  then obtain st where st: "solve ?inp = Inr st" ..
  from solve_O_total_nonneg [OF st] have tol: "tolerance ?inp < O_total st"
    by (simp add: example_defs)
  have th: "0 < Theta ?inp" by (simp add: example_defs)
  have "[0..<J ?inp] = [0, 1]" by (simp add: example_defs upt_rec)
  with non_convergence_returns [OF st tol th] st tol th show ?thesis
    by (intro exI [of _ st]) (simp add: example_defs)
qed




text \<open>
  C5. In every pass of the loop (from the state after any number of passes, with
  \<open>gamma \<noteq> 0\<close>, without which the pass raises) the arrays \<open>nom\<close>, \<open>Psi_b\<close>,
  \<open>mathcal_L\<close>, \<open>mathcal_L_hat\<close> and the update \<open>A_hat_up\<close> are the ones the
  specification's formulas give, with column sums over the J locations and row 0 as
  the reference, and the next iterate is built from that update.
\<close>

theorem pass_computes_update:
  assumes "passes inp n = Inr st" and "gamma inp \<noteq> 0"
  shows "nom inp st = spec_nom (A_hat st) (item (w inp)) (\<lambda>i. P inp i 0) (gamma inp)
         \<and> Psi_b inp st = spec_Psi_b (J inp) (xi inp) (nom inp st)
         \<and> mathcal_L inp st
             = spec_mathcal_L (J inp) (xi inp) (L_b_rescaled inp) (Psi_b inp st)
         \<and> mathcal_L_hat inp st = relative (mathcal_L inp st)
         \<and> A_hat_up inp st
             = spec_A_hat_new (gamma inp) (\<lambda>i. P_hat inp i 0) (relative (item (w inp)))
                 (relative (item (L inp))) (mathcal_L_hat inp st)
         \<and> (\<exists>st'. passes inp (Suc n) = Inr st'
               \<and> (\<forall>i t. A_hat st' i t
                     = conv inp * A_hat_up inp st i t + (1 - conv inp) * A_hat st i t))"
proof -
  have a: "A st = A_hat st" using assms(1) by (rule passes_alias)
  have 1: "nom inp st = spec_nom (A_hat st) (item (w inp)) (\<lambda>i. P inp i 0) (gamma inp)"
    by (intro ext) (simp add: nom_def spec_nom_def a)
  have 2: "Psi_b inp st = spec_Psi_b (J inp) (xi inp) (nom inp st)"
    by (intro ext) (simp add: Psi_b_def spec_Psi_b_def sum_axis0_sum)
  have 3: "mathcal_L inp st
             = spec_mathcal_L (J inp) (xi inp) (L_b_rescaled inp) (Psi_b inp st)"
    by (intro ext) (simp add: mathcal_L_def spec_mathcal_L_def sum_axis0_sum)
  have 4: "mathcal_L_hat inp st = relative (mathcal_L inp st)"
    by (intro ext) (simp add: mathcal_L_hat_def relative_def)
  have 5: "A_hat_up inp st
             = spec_A_hat_new (gamma inp) (\<lambda>i. P_hat inp i 0) (relative (item (w inp)))
                 (relative (item (L inp))) (mathcal_L_hat inp st)"
    by (intro ext) (simp add: A_hat_up_def spec_A_hat_new_def relative_def w_hat_def L_hat_def)
  obtain st' where p: "pass inp st = Inr st'"
    using pass_Inr_iff [OF assms(2)] by blast
  then have "\<forall>i t. A_hat st' i t
                     = conv inp * A_hat_up inp st i t + (1 - conv inp) * A_hat st i t"
    using assms(2) by (auto simp: pass_def Let_def)
  with p assms(1) have 6: "\<exists>st'. passes inp (Suc n) = Inr st'
               \<and> (\<forall>i t. A_hat st' i t
                     = conv inp * A_hat_up inp st i t + (1 - conv inp) * A_hat st i t)"
    by simp
  from 1 2 3 4 5 6 show ?thesis by blast
qed

text \<open>C5 at \<open>two_locations\<close>, for the pass that follows the first one.\<close>

theorem pass_computes_update_witness:
  "\<exists>st. passes two_locations 1 = Inr st \<and> gamma two_locations \<noteq> 0
        \<and> nom two_locations st
            = spec_nom (A_hat st) (item (w two_locations)) (\<lambda>i. P two_locations i 0) 3
        \<and> Psi_b two_locations st = spec_Psi_b 2 (11 / 2) (nom two_locations st)
        \<and> mathcal_L two_locations st
            = spec_mathcal_L 2 (11 / 2) (L_b_rescaled two_locations) (Psi_b two_locations st)
        \<and> A_hat_up two_locations st
            = spec_A_hat_new 3 (\<lambda>i. P_hat two_locations i 0) (relative (item (w two_locations)))
                (relative (item (L two_locations))) (relative (mathcal_L two_locations st))"
proof -
  have g: "gamma two_locations \<noteq> 0" by (simp add: example_defs)
  obtain st where st: "pass two_locations initial = Inr st"
    using pass_Inr_iff [OF g] by blast
  then have p: "passes two_locations 1 = Inr st" by simp
  have c: "J two_locations = 2" "xi two_locations = 11 / 2" "gamma two_locations = 3"
    by (simp_all add: example_defs)
  from pass_computes_update [OF p g] p g show ?thesis
    unfolding c by (intro exI [of _ st]) simp
qed

text \<open>
  C6. In every pass that completes, the objective is the sum over all locations and
  instances of the absolute deviation between the update and the iterate before
  damping, divided by J, which is the sum over the instances of the mean absolute
  deviation; the next iterate is the blend of the update and the previous iterate with
  weights \<open>conv\<close> and \<open>1 - conv\<close>.
\<close>

theorem pass_metric_and_damping:
  assumes "pass inp st = Inr st'"
  shows "O_total st'
           = (1 / real (J inp))
             * (\<Sum>i<J inp. \<Sum>t<Theta inp. \<bar>A_hat_up inp st i t - A_hat st i t\<bar>)
         \<and> O_total st' = spec_O_total (J inp) (Theta inp) (A_hat_up inp st) (A_hat st)
         \<and> (\<forall>i t. A_hat st' i t
                    = conv inp * A_hat_up inp st i t + (1 - conv inp) * A_hat st i t)
         \<and> A st' = A_hat st'"
proof -
  from assms have g: "gamma inp \<noteq> 0"
    by (auto simp: pass_def split: if_splits)
  have O: "O_total st'
        = sum_all (J inp) (Theta inp) (\<lambda>i t. \<bar>A_hat_up inp st i t - A_hat st i t\<bar>) / real (J inp)"
    using assms g by (auto simp: pass_def Let_def)
  have "O_total st' = spec_O_total (J inp) (Theta inp) (A_hat_up inp st) (A_hat st)"
    unfolding O by (rule O_total_as_spec)
  moreover have "O_total st'
           = (1 / real (J inp))
             * (\<Sum>i<J inp. \<Sum>t<Theta inp. \<bar>A_hat_up inp st i t - A_hat st i t\<bar>)"
    unfolding O by (simp add: sum_all_sum)
  moreover have "\<forall>i t. A_hat st' i t
                    = conv inp * A_hat_up inp st i t + (1 - conv inp) * A_hat st i t"
    using assms g by (auto simp: pass_def Let_def)
  moreover have "A st' = A_hat st'" using assms by (rule pass_fields)
  ultimately show ?thesis by blast
qed

text \<open>C6 at \<open>two_instances\<close>, for the first pass.\<close>

theorem pass_metric_and_damping_witness:
  "\<exists>st'. pass two_instances initial = Inr st'
         \<and> O_total st' = spec_O_total 2 2 (A_hat_up two_instances initial) (\<lambda>i t. 1)
         \<and> A_hat st' 1 1 = 1 / 2 * A_hat_up two_instances initial 1 1 + 1 / 2"
proof -
  have g: "gamma two_instances \<noteq> 0" by (simp add: example_defs)
  obtain st' where st': "pass two_instances initial = Inr st'"
    using pass_Inr_iff [OF g] by blast
  have c: "J two_instances = 2" "Theta two_instances = 2" "conv two_instances = 1 / 2"
    by (simp_all add: example_defs)
  from pass_metric_and_damping [OF st'] st' show ?thesis
    unfolding c by (intro exI [of _ st']) (simp add: initial_def)
qed

text \<open>
  C7. The preprocessing rescales \<open>L_b\<close> once, before the loop (the rescaled array
  depends on the input only), by the factor \<open>sum(L) / sum(L_b)\<close> of its column;
  where the column sum of \<open>L_b\<close> is not zero, the column sum of the rescaled
  \<open>L_b\<close> is the column sum of \<open>L\<close>.
\<close>

theorem rescaled_L_b_sums_to_L:
  assumes "sum_axis0 (J inp) (item (L_b inp)) t \<noteq> 0"
  shows "sum_axis0 (J inp) (L_b_rescaled inp) t = sum_axis0 (J inp) (item (L inp)) t
         \<and> (\<forall>i. L_b_rescaled inp i t
                  = item (L_b inp) i t
                    * (sum_axis0 (J inp) (item (L inp)) t / sum_axis0 (J inp) (item (L_b inp)) t))"
  using assms by (simp add: rescaled_column_sum) (simp add: L_b_adjust_def L_bar_def L_b_rescaled_def)

text \<open>C7 at \<open>two_locations\<close>: 8 and 12 become 16 and 24, which sum to 10 + 30.\<close>

theorem rescaled_L_b_sums_to_L_witness:
  "sum_axis0 (J two_locations) (item (L_b two_locations)) 0 \<noteq> 0
   \<and> sum_axis0 (J two_locations) (L_b_rescaled two_locations) 0 = 40
   \<and> L_b_rescaled two_locations 0 0 = 16 \<and> L_b_rescaled two_locations 1 0 = 24"
  using rescaled_L_b_sums_to_L [of two_locations 0]
  by (simp add: two_locations_sums) (simp add: example_defs)

text \<open>
  C8. On valid input, multiplying every entry of \<open>w\<close> by a positive constant
  leaves the result of the function unchanged: \<open>w\<close> enters through \<open>w_hat\<close>, a
  ratio to row 0, and through \<open>nom\<close>, of which only the share in its column sum is
  used.
\<close>

theorem wage_scale_invariance:
  assumes "valid_input inp" and "0 < c"
  shows "invert_quality_of_life (inp\<lparr>w := scale c (w inp)\<rparr>) = invert_quality_of_life inp"
proof -
  from assms(2) have c: "c \<noteq> 0" by simp
  have "solve (inp\<lparr>w := scale c (w inp)\<rparr>) = solve inp"
    by (simp add: solve_def scaled_preprocessing scaled_while_loop [OF c])
  then show ?thesis
    unfolding invert_quality_of_life_def scaled_preprocessing by simp
qed

text \<open>C8 at \<open>two_locations\<close> with the wages 2 and 3 multiplied by 10.\<close>

theorem wage_scale_invariance_witness:
  "valid_input two_locations \<and> (0::real) < 10
   \<and> item (w (two_locations\<lparr>w := scale 10 (w two_locations)\<rparr>)) 0 0 = 20
   \<and> item (w (two_locations\<lparr>w := scale 10 (w two_locations)\<rparr>)) 1 0 = 30
   \<and> invert_quality_of_life (two_locations\<lparr>w := scale 10 (w two_locations)\<rparr>)
       = invert_quality_of_life two_locations"
proof -
  have "item (w (two_locations\<lparr>w := scale 10 (w two_locations)\<rparr>)) 0 0 = 20"
    "item (w (two_locations\<lparr>w := scale 10 (w two_locations)\<rparr>)) 1 0 = 30"
    by (simp_all add: scale_simps example_defs)
  moreover have "(0::real) < 10" by simp
  moreover note wage_scale_invariance [OF valid_two_locations this] valid_two_locations
  ultimately show ?thesis by blast
qed

text \<open>
  C9, amended. If all locations are identical, with positive data, and \<open>gamma \<noteq> 0\<close>,
  then the first pass computes an update that is 1 everywhere and an objective of 0, and
  the function returns the vector of J ones; if moreover \<open>maxiter \<ge> 1\<close> and
  \<open>0 \<le> tolerance < 100000\<close>, the loop stops after exactly one pass, with
  \<open>O_total = 0 \<le> tolerance\<close>.
\<close>

theorem identical_locations_fixed_point:
  assumes "positive_data inp" "identical_locations inp" "gamma inp \<noteq> 0"
  shows "(\<forall>i<J inp. \<forall>t<Theta inp. A_hat_up inp initial i t = 1)
         \<and> (\<exists>st1. pass inp initial = Inr st1 \<and> O_total st1 = 0)
         \<and> (0 \<le> tolerance inp \<and> tolerance inp < 100000 \<and> 1 \<le> maxiter inp
              \<longrightarrow> (\<exists>st. solve inp = Inr st \<and> length (O_vector_total st) = 1
                         \<and> O_total st = 0 \<and> O_total st \<le> tolerance inp))
         \<and> invert_quality_of_life inp = Inr (replicate (J inp) 1)"
proof -
  note vd = positive_dataD [OF assms(1)]
  have 1: "\<forall>i<J inp. \<forall>t<Theta inp. A_hat_up inp initial i t = 1"
    using A_hat_up_uniform [OF assms(1,2) initial_uniform] by blast
  obtain st1 where p: "pass inp initial = Inr st1"
    using pass_Inr_iff [OF assms(3)] by blast
  have O: "O_total st1 = 0"
    using pass_uniform [OF assms(1,2) initial_uniform p] by simp
  have 3: "\<exists>st. solve inp = Inr st \<and> length (O_vector_total st) = 1
              \<and> O_total st = 0 \<and> O_total st \<le> tolerance inp"
    if h: "0 \<le> tolerance inp \<and> tolerance inp < 100000 \<and> 1 \<le> maxiter inp"
  proof -
    from h p O have "while_loop inp initial = Inr st1"
      by (intro converged_after_first_pass) auto
    with vd(1-3) have "solve inp = Inr st1" by (simp add: solve_Inr)
    moreover have "length (O_vector_total st1) = 1"
      using pass_fields(3) [OF p] by (simp add: initial_def)
    ultimately show ?thesis using O h by auto
  qed
  obtain st where st: "solve inp = Inr st"
    using solve_returns [OF vd(1-3) assms(3)] by blast
  have "uniform inp st" using assms(1,2) st by (rule solve_uniform)
  then have "map (\<lambda>i. A st i 0) [0..<J inp] = map (\<lambda>i. 1) [0..<J inp]"
    using vd(4) by (intro map_cong) (auto simp: uniform_def)
  also have "\<dots> = replicate (J inp) 1"
    by (simp add: map_replicate_const)
  finally have "invert_quality_of_life inp = Inr (replicate (J inp) 1)"
    using st vd(4) by (simp add: invert_quality_of_life_def)
  with 1 p O 3 show ?thesis by blast
qed

text \<open>C9, amended, at \<open>twin_locations\<close> with the default parameters.\<close>

theorem identical_locations_fixed_point_witness:
  "positive_data twin_locations \<and> identical_locations twin_locations
   \<and> gamma twin_locations \<noteq> 0
   \<and> (\<exists>st. solve twin_locations = Inr st \<and> length (O_vector_total st) = 1 \<and> O_total st = 0)
   \<and> invert_quality_of_life twin_locations = Inr [1, 1]"
proof -
  have g: "gamma twin_locations \<noteq> 0" by (simp add: example_defs)
  have t: "0 \<le> tolerance twin_locations \<and> tolerance twin_locations < 100000
           \<and> 1 \<le> maxiter twin_locations"
    by (simp add: example_defs)
  have j: "replicate (J twin_locations) (1::real) = [1, 1]"
    by (simp add: example_defs numeral_2_eq_2)
  from identical_locations_fixed_point [OF positive_twin_locations identical_twin_locations g] t j
  show ?thesis
    using positive_twin_locations identical_twin_locations g by auto
qed

text \<open>
  C9 as stated fails. With identical locations and \<open>maxiter = 0\<close> the loop is not
  entered: it does not stop after exactly one pass, and the objective keeps its start
  value 100000 instead of 0. With a negative tolerance the objective 0 is never below
  the tolerance and all 10000 passes are executed. With \<open>gamma = 0\<close> the first pass
  raises \<^verbatim>\<open>ZeroDivisionError\<close> and nothing is returned.
\<close>

theorem identical_locations_counterexample:
  "(positive_data (twin_locations\<lparr>maxiter := 0\<rparr>)
    \<and> identical_locations (twin_locations\<lparr>maxiter := 0\<rparr>)
    \<and> solve (twin_locations\<lparr>maxiter := 0\<rparr>) = Inr initial
    \<and> O_vector_total initial = [] \<and> O_total initial = 100000)
   \<and> (identical_locations (twin_locations\<lparr>tolerance := - 1\<rparr>)
      \<and> \<not> isl (solve (twin_locations\<lparr>tolerance := - 1\<rparr>))
      \<and> length (O_vector_total (projr (solve (twin_locations\<lparr>tolerance := - 1\<rparr>)))) = 10000)
   \<and> (identical_locations (twin_locations\<lparr>gamma := 0\<rparr>)
      \<and> invert_quality_of_life (twin_locations\<lparr>gamma := 0\<rparr>) = Inl ZeroDivisionError)"
  using twin_no_pass twin_negative_tolerance twin_gamma_zero identical_twin_locations
  by (simp only: more_irrelevant simp_thms)

text \<open>
  C10. Whenever the function returns, the value is a sequence of length J and is column
  0 of the final iterate \<open>A_hat\<close>, whatever the number Theta of columns that were
  solved: the other columns are not part of the output.
\<close>

theorem returns_first_column:
  assumes "invert_quality_of_life inp = Inr v"
  shows "length v = J inp
         \<and> (\<exists>st. solve inp = Inr st \<and> v = map (\<lambda>i. A_hat st i 0) [0..<J inp])"
proof -
  from assms obtain st where st: "solve inp = Inr st" and v: "v = map (\<lambda>i. A st i 0) [0..<J inp]"
    by (auto simp: invert_quality_of_life_def split: sum.splits if_splits)
  from solve_alias [OF st] v have "v = map (\<lambda>i. A_hat st i 0) [0..<J inp]" by simp
  with st show ?thesis by simp
qed

text \<open>C10 at \<open>two_instances\<close>: two columns are solved, two numbers are returned.\<close>

theorem returns_first_column_witness:
  "\<exists>v. invert_quality_of_life two_instances = Inr v \<and> Theta two_instances = 2 \<and> length v = 2"
proof -
  have "\<exists>v. invert_quality_of_life two_instances = Inr v"
    by (rule invert_returns) (simp_all add: example_defs)
  then obtain v where v: "invert_quality_of_life two_instances = Inr v" ..
  from returns_first_column [OF v] v show ?thesis
    by (auto simp: example_defs)
qed

end
